theory Spec2Isabelle
  imports Main
begin

section \<open>rnews: UUCP batch front end (frontends/rnews.c)\<close>

text \<open>
  A shallow embedding of \<^verbatim>\<open>frontends/rnews.c\<close>.  Buffers are byte lists
  (\<open>string\<close>); a C string is the part of a buffer before its first NUL.  Everything the
  program does to its surroundings is appended to a chronological \<open>trace\<close>; everything the
  surroundings decide (system-call outcomes, what the peer says, what a helper process
  prints, which names \<^verbatim>\<open>mkstemp\<close> picks, what \<^verbatim>\<open>waitpid\<close> finds) is read from scripts
  held in the \<open>world\<close>.  Diagnostics printed to stderr under \<^verbatim>\<open>Verbose\<close> and the sixty
  second sleeps between fork attempts are not part of the state.
\<close>

subsection \<open>Bytes and C strings\<close>

abbreviation NUL :: char where "NUL \<equiv> CHR 0x00"
abbreviation LF :: char where "LF \<equiv> CHR 0x0A"
abbreviation CR :: char where "CR \<equiv> CHR 0x0D"

definition cstr :: "string \<Rightarrow> string" where
  "cstr b = takeWhile (\<lambda>c. c \<noteq> NUL) b"

definition isdigit :: "char \<Rightarrow> bool" where
  "isdigit c = (48 \<le> (of_char c :: nat) \<and> (of_char c :: nat) \<le> 57)"

definition isspace :: "char \<Rightarrow> bool" where
  "isspace c = ((of_char c :: nat) = 32 \<or> (9 \<le> (of_char c :: nat) \<and> (of_char c :: nat) \<le> 13))"

definition ISWHITE :: "char \<Rightarrow> bool" where
  "ISWHITE c = (c = CHR '' '' \<or> c = CHR 0x09)"

definition digit_val :: "char \<Rightarrow> int" where
  "digit_val c = int (of_char c) - 48"

text \<open>
  \<^verbatim>\<open>atoi\<close>: leading white space, an optional sign, then the longest run of digits.  The
  value is an unbounded integer; C leaves the result undefined once it does not fit an
  \<^verbatim>\<open>int\<close>.
\<close>

definition atoi :: "string \<Rightarrow> int" where
  "atoi s =
     (let s1 = dropWhile isspace s;
          neg = (s1 \<noteq> [] \<and> hd s1 = CHR ''-'');
          s2 = (if s1 \<noteq> [] \<and> (hd s1 = CHR ''-'' \<or> hd s1 = CHR ''+'') then tl s1 else s1);
          v = foldl (\<lambda>a c. 10 * a + digit_val c) 0 (takeWhile isdigit s2)
      in if neg then - v else v)"

text \<open>\<^verbatim>\<open>strchr(s, c) != NULL\<close> for \<open>c\<close> other than NUL, on a C string.\<close>

definition has_char :: "char \<Rightarrow> string \<Rightarrow> bool" where
  "has_char c s = (c \<in> set s)"

subsection \<open>Configuration, library routines and the outside world\<close>

text \<open>
  The headers \<^verbatim>\<open>nntp.h\<close>, \<^verbatim>\<open>macros.h\<close>, \<^verbatim>\<open>paths.h\<close>, \<^verbatim>\<open>config.h\<close> and the library
  routines \<^verbatim>\<open>HeaderFindMem\<close> and \<^verbatim>\<open>NNTPsendarticle\<close> are not part of the sources at
  hand, so their constants and functions are parameters of the model, collected in
  \<open>env\<close>.  \<open>HeaderFindMem e a n h k\<close> is the offset into \<open>a\<close> of the value of header \<open>h\<close>
  (\<open>None\<close> for a NULL result); \<open>NNTPsendarticle e a\<close> gives the bytes put on the stream to
  the server and whether the call returned a non-negative value.  The build-time switches
  (\<^verbatim>\<open>DO_RNEWS_SAVE_BAD\<close> and so on) are booleans.
\<close>

record env =
  SMBUF :: nat
  BUFSIZ :: nat
  NNTP_HAVEIT_VAL :: int
  NNTP_REJECTIT_VAL :: int
  NNTP_RESENDIT_VAL :: int
  NNTP_SENDIT_VAL :: int
  NNTP_TOOKIT_VAL :: int
  RNEWS_MAGIC1 :: char
  RNEWS_MAGIC2 :: char
  HeaderFindMem :: "string \<Rightarrow> nat \<Rightarrow> string \<Rightarrow> nat \<Rightarrow> nat option"
  NNTPsendarticle :: "string \<Rightarrow> string \<times> bool"
  DO_RNEWS_SAVE_BAD :: bool
  SYSLOG_RNEWS_LOG_DUPS :: bool
  FILE_RNEWS_LOG_DUPS :: bool
  DO_RNEWSPROGS :: bool
  maxforks :: nat
  pathincoming :: string
  pathbin :: string
  PathBadNews :: string
  PATH_GZIP :: string
  PATH_RNEWSPROGS :: string
  PATH_RNEWS_DUP_LOG :: string

datatype level = L_notice | L_sysnotice | L_warn | L_syswarn | L_sysdie

datatype arg = S string | I int

datatype wres = W_reaped | W_none | W_EINTR | W_ECHILD | W_error

datatype event =
    Log level string "arg list"
  | ToPeer string
  | FromPeer string
  | Creat string
  | Open string
  | LockRead string
  | Chmod string
  | Write string string
  | Close string
  | Rename string string
  | Unlink string
  | Spawn string "string list"
  | Waitpid wres

datatype sysres = OK | Short nat | Fail

text \<open>
  \<open>sys\<close> scripts the outcome of each fallible system call in program order (an exhausted
  script means success): \<open>Fail\<close> is an error return, \<open>Short k\<close> caps a \<^verbatim>\<open>read\<close> or
  \<^verbatim>\<open>write\<close> at \<open>k\<close> bytes (at least one).  \<open>fromServer\<close> is what the peer will still
  send, \<open>kids\<close> what each helper process that gets started will print, \<open>names\<close> the
  suffixes \<^verbatim>\<open>mkstemp\<close> will choose, \<open>waits\<close> what each \<^verbatim>\<open>waitpid\<close> will find.
\<close>

record world =
  trace :: "event list"
  fromServer :: string
  sys :: "sysres list"
  kids :: "string list"
  names :: "string list"
  waits :: "wres list"
  UUCPHost :: "string option"

definition emit :: "world \<Rightarrow> event \<Rightarrow> world" where
  "emit w ev = w\<lparr>trace := trace w @ [ev]\<rparr>"

definition syscall :: "world \<Rightarrow> sysres \<times> world" where
  "syscall w = (case sys w of [] \<Rightarrow> (OK, w) | r # rs \<Rightarrow> (r, w\<lparr>sys := rs\<rparr>))"

text \<open>\<^verbatim>\<open>mkstemp\<close> on the template \<open>prefix @ ''XXXXXX''\<close>.\<close>

definition mkstemp :: "world \<Rightarrow> string \<Rightarrow> string option \<times> world" where
  "mkstemp w prefix =
     (case syscall w of
        (Fail, w1) \<Rightarrow> (None, w1)
      | (_, w1) \<Rightarrow>
          (let suffix = (case names w1 of [] \<Rightarrow> ''XXXXXX'' | n # _ \<Rightarrow> n);
               f = prefix @ suffix
           in (Some f, emit (w1\<lparr>names := tl (names w1)\<rparr>) (Creat f))))"

text \<open>The bytes written to the server so far, in order.\<close>

fun to_peer :: "event list \<Rightarrow> string" where
  "to_peer [] = []"
| "to_peer (ToPeer s # es) = s @ to_peer es"
| "to_peer (_ # es) = to_peer es"

subsection \<open>Talking to the server\<close>

text \<open>\<^verbatim>\<open>fgets(buff, n, F)\<close>: at most \<open>n - 1\<close> bytes, stopping after a newline.\<close>

fun fgets_split :: "nat \<Rightarrow> string \<Rightarrow> string \<times> string" where
  "fgets_split 0 s = ([], s)"
| "fgets_split (Suc n) [] = ([], [])"
| "fgets_split (Suc n) (c # s) =
     (if c = LF then ([c], s)
      else (case fgets_split n s of (a, b) \<Rightarrow> (c # a, b)))"

definition fgets_server :: "env \<Rightarrow> world \<Rightarrow> string option \<times> world" where
  "fgets_server e w =
     (if fromServer w = [] then (None, w)
      else (case fgets_split (SMBUF e - 1) (fromServer w) of
              (l, r) \<Rightarrow> (Some l, emit (w\<lparr>fromServer := r\<rparr>) (FromPeer l))))"

definition REMclean :: "string \<Rightarrow> string" where
  "REMclean buff = takeWhile (\<lambda>c. c \<noteq> LF) (takeWhile (\<lambda>c. c \<noteq> CR) (cstr buff))"

subsection \<open>Reject\<close>

definition Reject :: "env \<Rightarrow> world \<Rightarrow> string \<Rightarrow> string \<Rightarrow> string \<Rightarrow> world" where
  "Reject e w article reason a =
     (let w0 = emit w (Log L_notice reason [S a]) in
      if \<not> DO_RNEWS_SAVE_BAD e then w0
      else (case mkstemp w0 (PathBadNews e @ ''/'') of
              (None, w1) \<Rightarrow> emit w1 (Log L_warn ''cannot create temporary file'' [])
            | (Some filename, w1) \<Rightarrow>
                (case syscall w1 of
                   (Fail, w2) \<Rightarrow> emit w2 (Log L_warn ''cannot fdopen %s'' [S filename])
                 | (_, w2) \<Rightarrow>
                     (let w3 = (case syscall w2 of
                                  (Fail, w') \<Rightarrow>
                                     emit w' (Log L_warn ''cannot fwrite to %s'' [S filename])
                                | (_, w') \<Rightarrow> emit w' (Write filename (cstr article)))
                      in (case syscall w3 of
                            (Fail, w4) \<Rightarrow>
                               emit w4 (Log L_warn ''cannot close %s'' [S filename])
                          | (_, w4) \<Rightarrow> emit w4 (Close filename))))))"

subsection \<open>Process: offer one article\<close>

record HEADER =
  Name :: string
  size_h :: nat

definition RequiredHeaders :: "HEADER list" where
  "RequiredHeaders =
     [\<lparr>Name = ''Message-ID'', size_h = 10\<rparr>,
      \<lparr>Name = ''Newsgroups'', size_h = 10\<rparr>,
      \<lparr>Name = ''From'', size_h = 4\<rparr>,
      \<lparr>Name = ''Date'', size_h = 4\<rparr>,
      \<lparr>Name = ''Subject'', size_h = 7\<rparr>,
      \<lparr>Name = ''Path'', size_h = 4\<rparr>]"

definition IS_MESGID :: "HEADER \<Rightarrow> bool" where
  "IS_MESGID hp = (hp = RequiredHeaders ! 0)"

definition IS_PATH :: "HEADER \<Rightarrow> bool" where
  "IS_PATH hp = (hp = RequiredHeaders ! 5)"

text \<open>
  The loop over \<^verbatim>\<open>RequiredHeaders\<close>: \<open>Inl h\<close> when header \<open>h\<close> is the first one missing,
  otherwise the text from the Message-ID value on (\<open>id\<close>, a pointer into the article) and
  the 39-byte copy of the Path value cut at its newline.  \<open>id\<close> and \<open>path\<close> start as
  \<open>[]\<close> for the C variables' initial NULL and uninitialised array; both table entries are
  met before the loop ends.
\<close>

fun headers_loop ::
  "env \<Rightarrow> string \<Rightarrow> HEADER list \<Rightarrow> string \<Rightarrow> string \<Rightarrow> string + (string \<times> string)" where
  "headers_loop e article [] ident path = Inr (ident, path)"
| "headers_loop e article (hp # hps) ident path =
     (case HeaderFindMem e article (length article) (Name hp) (size_h hp) of
        None \<Rightarrow> Inl (Name hp)
      | Some p \<Rightarrow>
          if IS_MESGID hp then headers_loop e article hps (drop p article) path
          else if IS_PATH hp then
            headers_loop e article hps ident
              (takeWhile (\<lambda>c. c \<noteq> LF) (take 39 (drop p article)))
          else headers_loop e article hps ident path)"

definition log_dup :: "env \<Rightarrow> world \<Rightarrow> string \<Rightarrow> string \<Rightarrow> world" where
  "log_dup e w msgid path =
     (let w1 = (if SYSLOG_RNEWS_LOG_DUPS e
                then emit w (Log L_notice ''duplicate %s %s'' [S msgid, S path]) else w)
      in if FILE_RNEWS_LOG_DUPS e then
           (case syscall w1 of
              (Fail, w2) \<Rightarrow> w2
            | (_, w2) \<Rightarrow>
                emit w2 (Write (PATH_RNEWS_DUP_LOG e)
                          (''duplicate '' @ msgid @ '' '' @ path @ [LF])))
         else w1)"

text \<open>
  \<^verbatim>\<open>Process\<close> in four blocks: the \<^verbatim>\<open>switch\<close> on the reply to the article
  (\<open>final_reply\<close>), reading that reply (\<open>after_article\<close>), the \<^verbatim>\<open>switch\<close> on the reply
  to \<^verbatim>\<open>ihave\<close> (\<open>ihave_reply\<close>), and the offer itself (\<open>offer\<close>).  \<open>buff\<close> is the
  reply after \<^verbatim>\<open>REMclean\<close>, its first byte a digit.
\<close>

definition final_reply :: "env \<Rightarrow> world \<Rightarrow> string \<Rightarrow> string \<Rightarrow> bool \<times> world" where
  "final_reply e w article buff =
     (if atoi buff = NNTP_RESENDIT_VAL e then (False, w)
      else if atoi buff = NNTP_TOOKIT_VAL e then (True, w)
      else if atoi buff = NNTP_REJECTIT_VAL e then
        (True, Reject e w article ''rejected %s'' buff)
      else (False, emit w (Log L_notice ''unknown_reply after article %s'' [S buff])))"

definition after_article :: "env \<Rightarrow> world \<Rightarrow> string \<Rightarrow> bool \<times> world" where
  "after_article e w article =
     (case fgets_server e w of
        (None, w1) \<Rightarrow> (False, emit w1 (Log L_syswarn ''cannot fgets after article'' []))
      | (Some l, w1) \<Rightarrow>
          (let buff = REMclean l in
           if \<not> (buff \<noteq> [] \<and> isdigit (hd buff)) then
             (False, emit w1 (Log L_notice ''bad_reply after article %s'' [S buff]))
           else final_reply e w1 article buff))"

definition ihave_reply ::
  "env \<Rightarrow> world \<Rightarrow> string \<Rightarrow> string \<Rightarrow> string \<Rightarrow> string \<Rightarrow> bool \<times> world" where
  "ihave_reply e w article msgid path buff =
     (if atoi buff = NNTP_RESENDIT_VAL e then (False, w)
      else if atoi buff = NNTP_SENDIT_VAL e then
        (case NNTPsendarticle e article of
           (sent, ok) \<Rightarrow>
             (let w1 = emit w (ToPeer sent) in
              if \<not> ok then (False, emit w1 (Log L_sysnotice ''cant sendarticle'' []))
              else after_article e w1 article))
      else if atoi buff = NNTP_HAVEIT_VAL e then (True, log_dup e w msgid path)
      else (True, Reject e w article ''unknown_reply after ihave %s'' buff))"

definition offer :: "world \<Rightarrow> string \<Rightarrow> world" where
  "offer w msgid =
     (let w1 = emit w (ToPeer (''ihave '' @ msgid @ [CR, LF])) in
      case UUCPHost w1 of
        None \<Rightarrow> w1
      | Some h \<Rightarrow> emit w1 (Log L_notice ''offered %s %s'' [S msgid, S h]))"

definition Process :: "env \<Rightarrow> world \<Rightarrow> string \<Rightarrow> bool \<times> world" where
  "Process e w buffer =
     (let article = cstr buffer in
      if article = [] then (True, w)
      else
        (case headers_loop e article RequiredHeaders [] [] of
           Inl h \<Rightarrow> (False, Reject e w article ''bad_article missing %s'' h)
         | Inr (ident, path) \<Rightarrow>
             if \<not> has_char LF ident then
               (False, Reject e w article ''bad_article unterminated %s header'' ''Message-ID'')
             else
               (let msgid = takeWhile (\<lambda>c. c \<noteq> LF) ident in
                case fgets_server e (offer w msgid) of
                  (None, w1) \<Rightarrow>
                    (False, emit w1 (Log L_syswarn ''cannot fgets after ihave'' []))
                | (Some l, w1) \<Rightarrow>
                    (let buff = REMclean l in
                     if \<not> (buff \<noteq> [] \<and> isdigit (hd buff)) then
                       (False, emit w1 (Log L_notice ''bad_reply after ihave %s'' [S buff]))
                     else ihave_reply e w1 article msgid path buff))))"

subsection \<open>The input descriptor\<close>

text \<open>
  The descriptor the batch is read from: the bytes behind it, the file offset, and
  whether it can seek (a regular file can, a pipe from a helper cannot).  \<open>read\<close> returns
  \<open>RData []\<close> at end of input and \<open>RErr\<close> for a negative return.
\<close>

record stream =
  bytes :: string
  pos :: nat
  seekable :: bool

datatype rdres = RData string | RErr

datatype 'a result = Ret 'a | Died | Undef

definition rest :: "stream \<Rightarrow> string" where
  "rest s = drop (pos s) (bytes s)"

definition advance :: "stream \<Rightarrow> nat \<Rightarrow> stream" where
  "advance s n = s\<lparr>pos := pos s + n\<rparr>"

definition read :: "world \<Rightarrow> stream \<Rightarrow> nat \<Rightarrow> rdres \<times> world \<times> stream" where
  "read w s n =
     (case syscall w of
        (Fail, w1) \<Rightarrow> (RErr, w1, s)
      | (Short k, w1) \<Rightarrow>
          (let d = take (min n (max 1 k)) (rest s) in (RData d, w1, advance s (length d)))
      | (OK, w1) \<Rightarrow>
          (let d = take n (rest s) in (RData d, w1, advance s (length d))))"


lemma syscall_fields [simp]:
  "syscall w = (r, w1) \<Longrightarrow>
     trace w1 = trace w \<and> kids w1 = kids w \<and> fromServer w1 = fromServer w \<and>
     names w1 = names w \<and> waits w1 = waits w \<and> UUCPHost w1 = UUCPHost w"
  by (auto simp: syscall_def split: list.splits)

lemma read_kids: "read w s n = (r, w1, s1) \<Longrightarrow> kids w1 = kids w"
  by (auto simp: read_def Let_def split: prod.splits sysres.splits dest: syscall_fields)

lemma read_trace: "read w s n = (r, w1, s1) \<Longrightarrow> trace w1 = trace w"
  by (auto simp: read_def Let_def split: prod.splits sysres.splits dest: syscall_fields)


lemma read_shape:
  "read w s n = (RData d, w1, s1) \<Longrightarrow>
     \<exists>m\<le>n. d = take m (rest s) \<and> s1 = advance s (length d)"
proof -
  assume a: "read w s n = (RData d, w1, s1)"
  obtain r w' where sc: "syscall w = (r, w')" by (cases "syscall w")
  show ?thesis
  proof (cases r)
    case OK
    with a sc have "d = take n (rest s) \<and> s1 = advance s (length d)"
      by (auto simp: read_def Let_def)
    then show ?thesis by blast
  next
    case (Short k)
    with a sc have "d = take (min n (max 1 k)) (rest s) \<and> s1 = advance s (length d)"
      by (auto simp: read_def Let_def)
    moreover have "min n (max 1 k) \<le> n" by simp
    ultimately show ?thesis by blast
  next
    case Fail
    with a sc show ?thesis by (simp add: read_def)
  qed
qed

lemma read_data:
  assumes "read w s n = (RData d, w1, s1)"
  shows "length d \<le> n" and "length (rest s1) + length d = length (rest s)"
    and "d = take (length d) (rest s)" and "pos s1 = pos s + length d"
    and "rest s = d @ rest s1"
proof -
  from read_shape [OF assms] obtain m where m: "m \<le> n" "d = take m (rest s)"
    and s1: "s1 = advance s (length d)" by blast
  show "length d \<le> n" using m by simp
  have r: "rest s1 = drop (length d) (rest s)"
    by (simp add: s1 rest_def advance_def add.commute)
  have t: "take (length d) (rest s) = d"
  proof (cases "m \<le> length (rest s)")
    case True
    then have "length d = m" using m by simp
    then show ?thesis using m by simp
  next
    case False
    then have "d = rest s" using m by simp
    then show ?thesis by simp
  qed
  show "d = take (length d) (rest s)" using t by simp
  have "take (length d) (rest s) @ drop (length d) (rest s) = rest s"
    by (rule append_take_drop_id)
  then show "rest s = d @ rest s1" using t r by simp
  then have "length (rest s) = length d + length (rest s1)" by (metis length_append)
  then show "length (rest s1) + length d = length (rest s)" by simp
  show "pos s1 = pos s + length d" by (simp add: s1 advance_def)
qed

subsection \<open>ReadBytecount\<close>

text \<open>
  The \<^verbatim>\<open>for\<close> loop of \<^verbatim>\<open>ReadBytecount\<close>: \<open>left\<close> bytes are still wanted, \<open>acc\<close> is what
  \<^verbatim>\<open>article\<close> holds so far.  The flag tells whether every byte arrived.
\<close>

function read_loop :: "world \<Rightarrow> stream \<Rightarrow> nat \<Rightarrow> string \<Rightarrow> bool \<times> string \<times> world \<times> stream" where
  "read_loop w s left acc =
     (if left = 0 then (True, acc, w, s)
      else (case read w s left of
              (RErr, w1, s1) \<Rightarrow> (False, acc, w1, s1)
            | (RData d, w1, s1) \<Rightarrow>
                if d = [] then (False, acc, w1, s1)
                else read_loop w1 s1 (left - length d) (acc @ d)))"
  by pat_completeness auto
termination
  by (relation "measure (\<lambda>(w, s, left, acc). left)") auto

declare read_loop.simps [simp del]

text \<open>
  The static buffer of \<^verbatim>\<open>ReadBytecount\<close> is overwritten from its start and closed with
  a NUL at every call that reaches \<^verbatim>\<open>Process\<close>, so no byte of an earlier call is ever
  seen and the buffer needs no place in the state.  \<^verbatim>\<open>UnpackOne\<close> calls it with a
  positive \<open>artsize\<close> only.
\<close>

definition add_newline :: "string \<Rightarrow> string" where
  "add_newline got = (if got \<noteq> [] \<and> last got = LF then got else got @ [LF])"

definition ReadBytecount :: "env \<Rightarrow> world \<Rightarrow> stream \<Rightarrow> nat \<Rightarrow> bool \<times> world \<times> stream" where
  "ReadBytecount e w s artsize =
     (case read_loop w s artsize [] of
        (False, got, w1, s1) \<Rightarrow>
          (True,
           emit w1 (Log L_warn ''cannot read, wanted %d got %d''
                      [I (int artsize), I (int (length got))]),
           s1)
      | (True, got, w1, s1) \<Rightarrow>
          (case Process e w1 (add_newline got) of (ok, w2) \<Rightarrow> (ok, w2, s1)))"

subsection \<open>ReadRemainder\<close>





lemma fgets_split_append: "fgets_split n s = (a, b) \<Longrightarrow> a @ b = s"
proof (induction n s arbitrary: a b rule: fgets_split.induct)
  case (1 s)
  then show ?case by simp
next
  case (2 n)
  then show ?case by simp
next
  case (3 n c s)
  then show ?case by (auto split: if_splits prod.splits)
qed




subsection \<open>ReadLine\<close>


subsection \<open>StartChild\<close>

text \<open>
  The fork loop gives up once \<open>i\<close> equals \<^verbatim>\<open>innconf->maxforks\<close>.  What happens in
  the child (the \<^verbatim>\<open>dup2\<close> calls, \<^verbatim>\<open>execv\<close>, the helper itself) shows only in what
  comes down the pipe, which \<open>kids\<close> scripts; a child that fails to start prints nothing.
\<close>

lemma syscall_Fail: "syscall w = (Fail, w1) \<Longrightarrow> length (sys w1) < length (sys w)"
  by (cases "sys w") (auto simp: syscall_def)

lemma emit_fields [simp]:
  "trace (emit w ev) = trace w @ [ev]" "kids (emit w ev) = kids w"
  "fromServer (emit w ev) = fromServer w" "sys (emit w ev) = sys w"
  "names (emit w ev) = names w" "waits (emit w ev) = waits w"
  "UUCPHost (emit w ev) = UUCPHost w"
  by (simp_all add: emit_def)

function fork_loop :: "env \<Rightarrow> world \<Rightarrow> string \<Rightarrow> nat \<Rightarrow> bool \<times> world" where
  "fork_loop e w path i =
     (case syscall w of
        (Fail, w1) \<Rightarrow>
          if i = maxforks e then
            (False, emit w1 (Log L_syswarn ''cannot fork %s, spooling'' [S path]))
          else fork_loop e (emit w1 (Log L_notice ''cannot fork %s, waiting'' [S path])) path (i + 1)
      | (_, w1) \<Rightarrow> (True, w1))"
  by pat_completeness auto
termination
  apply (relation "measure (\<lambda>(e, w, path, i). length (sys w))")
   apply simp
  apply clarsimp
  apply (drule sym)
  apply (drule syscall_Fail)
  apply simp
  done

declare fork_loop.simps [simp del]

datatype spawned = Child stream | NoFork | NoPipe

definition StartChild :: "env \<Rightarrow> world \<Rightarrow> stream \<Rightarrow> string \<Rightarrow> string list \<Rightarrow> spawned \<times> world" where
  "StartChild e w s path argv =
     (case syscall w of
        (Fail, w1) \<Rightarrow> (NoPipe, emit w1 (Log L_sysdie ''cannot pipe for %s'' [S path]))
      | (_, w1) \<Rightarrow>
          (case fork_loop e w1 path 0 of
             (False, w2) \<Rightarrow> (NoFork, w2)
           | (True, w2) \<Rightarrow>
               (Child \<lparr>bytes = (case kids w2 of [] \<Rightarrow> [] | k # _ \<Rightarrow> k), pos = 0,
                        seekable = False\<rparr>,
                emit (w2\<lparr>kids := tl (kids w2)\<rparr>) (Spawn path argv))))"

subsection \<open>UnpackOne\<close>

text \<open>
  The local variables of \<^verbatim>\<open>UnpackOne\<close> that live across iterations, with the
  descriptor \<^verbatim>\<open>*fdp\<close>, the counter \<^verbatim>\<open>*countp\<close> and the world.  \<^verbatim>\<open>gzip\<close> is set
  once and never cleared.
\<close>

record ustate =
  fd :: stream
  countp :: nat
  gzip :: bool
  HadCount :: bool
  SawCunbatch :: bool
  wld :: world

text \<open>
  One iteration ends in \<^verbatim>\<open>continue\<close> or leaves the function: with a result, the
  descriptor left in \<^verbatim>\<open>*fdp\<close> (\<open>None\<close> for \<open>-1\<close>) and the count.
\<close>

datatype step = Continue ustate | Return "bool result" "stream option" nat world

definition UNPACK :: string where
  "UNPACK = ''gzip''"

definition spawn_step ::
  "env \<Rightarrow> ustate \<Rightarrow> world \<Rightarrow> stream \<Rightarrow> string \<Rightarrow> string list \<Rightarrow> bool \<Rightarrow> step" where
  "spawn_step e st w s path argv saw =
     (case StartChild e w s path argv of
        (NoPipe, w1) \<Rightarrow> Return Died (Some s) (countp st) w1
      | (NoFork, w1) \<Rightarrow> Return (Ret False) None (countp st) w1
      | (Child s1, w1) \<Rightarrow>
          Continue (st\<lparr>fd := s1, countp := countp st + 1, SawCunbatch := saw, wld := w1\<rparr>))"

text \<open>
  The program path built under \<^verbatim>\<open>DO_RNEWSPROGS\<close> from the command line in \<open>buff\<close>
  (at least three bytes long): directories in the command are dropped, \<^verbatim>\<open>snprintf\<close>
  cuts at the size of \<^verbatim>\<open>path\<close>, and the name ends at the first blank or tab at or
  after \<open>len\<close>.
\<close>

definition rnewsprogs_path :: "env \<Rightarrow> string \<Rightarrow> string" where
  "rnewsprogs_path e buff =
     (let b3 = drop 3 buff;
          p = (if CHR ''/'' \<in> set b3 then rev (takeWhile (\<lambda>c. c \<noteq> CHR ''/'') (rev b3)) else b3);
          rel = (CHR ''/'' \<notin> set (PATH_RNEWSPROGS e));
          full = (if rel then pathbin e @ ''/'' @ PATH_RNEWSPROGS e @ ''/'' @ p
                  else PATH_RNEWSPROGS e @ ''/'' @ p);
          len = (if rel then length (pathbin e) + 1 + (length (PATH_RNEWSPROGS e) + 1)
                 else length (PATH_RNEWSPROGS e) + 1);
          path = take (2 * SMBUF e) full
      in take len path @ takeWhile (\<lambda>c. \<not> ISWHITE c) (drop len path))"

text \<open>What follows a complete command line \<open>buff\<close> (the C string in \<^verbatim>\<open>buff\<close>).\<close>

definition command_step :: "env \<Rightarrow> ustate \<Rightarrow> world \<Rightarrow> stream \<Rightarrow> string \<Rightarrow> step" where
  "command_step e st w s buff =
     (if take 9 buff = ''#! rnews '' then
        (let artsize = atoi (drop 9 buff) in
         if artsize \<le> 0 then
           Return (Ret False) (Some s) (countp st)
             (emit w (Log L_syswarn ''bad_line bad count %s'' [S buff]))
         else
           (case ReadBytecount e w s (nat artsize) of
              (True, w1, s1) \<Rightarrow> Continue (st\<lparr>fd := s1, HadCount := True, wld := w1\<rparr>)
            | (False, w1, s1) \<Rightarrow> Return (Ret False) (Some s1) (countp st) w1))
      else if HadCount st then Return (Ret False) (Some s) (countp st) w
      else if buff = ''#! cunbatch'' then
        (if SawCunbatch st then
           Return (Ret False) (Some s) (countp st) (emit w (Log L_syswarn ''nested_cunbatch'' []))
         else spawn_step e st w s (PATH_GZIP e) [UNPACK, ''-d''] True)
      else if DO_RNEWSPROGS e then
        (if length buff < 3 then Return Undef (Some s) (countp st) w
         else spawn_step e st w s (rnewsprogs_path e buff) [UNPACK] (SawCunbatch st))
      else
        Return (Ret False) (Some s) (countp st)
          (emit w (Log L_warn ''bad_format unknown command %s'' [S buff])))"



definition frame :: "world \<Rightarrow> world \<Rightarrow> bool" where
  "frame w w' = (kids w' = kids w \<and> waits w' = waits w \<and> UUCPHost w' = UUCPHost w)"

lemma frame_refl [simp]: "frame w w"
  by (simp add: frame_def)


lemma frame_emit [simp]: "frame w (emit w' ev) = frame w w'"
  by (simp add: frame_def)

lemma frame_emit_left [simp]: "frame (emit w ev) w' = frame w w'"
  by (simp add: frame_def)




























subsection \<open>WaitForChildren\<close>


subsection \<open>Spool\<close>


text \<open>The inner loop of \<^verbatim>\<open>Spool\<close>: write \<open>d\<close> to the file \<open>f\<close>, retrying short writes.\<close>

lemma syscall_Short: "syscall w = (Short k, w1) \<Longrightarrow> length (sys w1) < length (sys w)"
  by (cases "sys w") (auto simp: syscall_def)








subsection \<open>Unspool\<close>








subsection \<open>main, from ``Execute the command'' on\<close>


subsection \<open>A configuration for the examples\<close>

text \<open>
  The examples run the model on concrete input.  They take the status codes of RFC 977, the
  magic bytes \<open>#!\<close>, and simple stand-ins for the two library routines: a header is found
  where a line of the article starts with its name, a colon and a blank; the article goes
  out unchanged, followed by the line that ends the body.
\<close>

fun find_header :: "string \<Rightarrow> string \<Rightarrow> bool \<Rightarrow> nat \<Rightarrow> nat option" where
  "find_header h [] bol off = None"
| "find_header h (c # cs) bol off =
     (if bol then
        (if take (length h + 2) (c # cs) = h @ '': '' then Some (off + length h + 2)
         else find_header h cs (c = LF) (off + 1))
      else find_header h cs (c = LF) (off + 1))"

definition env_ex :: env where
  "env_ex =
     \<lparr>SMBUF = 256, BUFSIZ = 256,
      NNTP_HAVEIT_VAL = 435, NNTP_REJECTIT_VAL = 437, NNTP_RESENDIT_VAL = 436,
      NNTP_SENDIT_VAL = 335, NNTP_TOOKIT_VAL = 235,
      RNEWS_MAGIC1 = CHR ''#'', RNEWS_MAGIC2 = CHR ''!'',
      HeaderFindMem = (\<lambda>a n h k. find_header h a True 0),
      NNTPsendarticle = (\<lambda>a. (a @ [CHR ''.'', CR, LF], True)),
      DO_RNEWS_SAVE_BAD = False, SYSLOG_RNEWS_LOG_DUPS = False, FILE_RNEWS_LOG_DUPS = False,
      DO_RNEWSPROGS = False, maxforks = 10,
      pathincoming = ''/in'', pathbin = ''/bin'', PathBadNews = ''/in/bad'',
      PATH_GZIP = ''/bin/gzip'', PATH_RNEWSPROGS = ''rnews.libexec'',
      PATH_RNEWS_DUP_LOG = ''/log/rnews.dups''\<rparr>"

definition world_ex :: "string \<Rightarrow> world" where
  "world_ex replies =
     \<lparr>trace = [], fromServer = replies, sys = [], kids = [], names = [], waits = [],
      UUCPHost = None\<rparr>"

definition file_ex :: "string \<Rightarrow> stream" where
  "file_ex b = \<lparr>bytes = b, pos = 0, seekable = True\<rparr>"

text \<open>Two small articles: one complete, one without a Date header.\<close>

definition art_ok :: string where
  "art_ok = ''Message-ID: <1@x>'' @ [LF] @ ''Newsgroups: a'' @ [LF] @ ''From: f'' @ [LF]
     @ ''Date: d'' @ [LF] @ ''Subject: s'' @ [LF] @ ''Path: p'' @ [LF] @ [LF] @ ''hi'' @ [LF]"



subsection \<open>What reaches the server\<close>

lemma to_peer_append [simp]: "to_peer (xs @ ys) = to_peer xs @ to_peer ys"
  by (induction xs rule: to_peer.induct) auto

definition quiet :: "world \<Rightarrow> world \<Rightarrow> bool" where
  "quiet w w' = (to_peer (trace w') = to_peer (trace w))"

lemma quiet_refl [simp]: "quiet w w"
  by (simp add: quiet_def)

lemma quiet_syscall: "syscall w = (r, w1) \<Longrightarrow> quiet w w1"
  by (auto simp: quiet_def dest: syscall_fields)



lemma quiet_log_dup: "quiet w (log_dup e w m p)"
  by (auto simp: log_dup_def Let_def quiet_def split: prod.splits sysres.splits
      dest!: quiet_syscall)

lemma to_peer_offer: "to_peer (trace (offer w m)) = to_peer (trace w) @ ''ihave '' @ m @ [CR, LF]"
  by (simp add: offer_def Let_def split: option.splits)

lemma quiet_fgets_server: "fgets_server e w = (r, w1) \<Longrightarrow> quiet w w1"
  by (auto simp: fgets_server_def quiet_def emit_def split: if_splits prod.splits)

subsection \<open>Hypotheses of the theorems on Process\<close>

text \<open>
  \<open>offer_answered e w b ident path l w1\<close>: the article in buffer \<open>b\<close> is not empty, has
  its six headers and a terminated Message-ID, has been offered in world \<open>w\<close>, and the
  server's answer \<open>l\<close> starts, after \<^verbatim>\<open>REMclean\<close>, with a digit; \<open>w1\<close> is the world then.
\<close>

definition offer_answered ::
  "env \<Rightarrow> world \<Rightarrow> string \<Rightarrow> string \<Rightarrow> string \<Rightarrow> string \<Rightarrow> world \<Rightarrow> bool" where
  "offer_answered e w b ident path l w1 =
     (cstr b \<noteq> [] \<and>
      headers_loop e (cstr b) RequiredHeaders [] [] = Inr (ident, path) \<and>
      has_char LF ident \<and>
      fgets_server e (offer w (takeWhile (\<lambda>c. c \<noteq> LF) ident)) = (Some l, w1) \<and>
      REMclean l \<noteq> [] \<and> isdigit (hd (REMclean l)))"

text \<open>
  \<open>bytecount_article w s cmd got w0 s1\<close>: \<open>cmd\<close> is a line \<^verbatim>\<open>#! rnews N\<close> with \<open>N\<close>
  positive, and all \<open>N\<close> bytes have been read from \<open>s\<close> as \<open>got\<close>, leaving the world \<open>w0\<close>
  and the descriptor \<open>s1\<close>.
\<close>

definition bytecount_article ::
  "world \<Rightarrow> stream \<Rightarrow> string \<Rightarrow> string \<Rightarrow> world \<Rightarrow> stream \<Rightarrow> bool" where
  "bytecount_article w s cmd got w0 s1 =
     (take 9 cmd = ''#! rnews '' \<and> 0 < atoi (drop 9 cmd) \<and>
      read_loop w s (nat (atoi (drop 9 cmd))) [] = (True, got, w0, s1))"

lemma Process_answered:
  "offer_answered e w b ident path l w1 \<Longrightarrow>
     Process e w b =
       ihave_reply e w1 (cstr b) (takeWhile (\<lambda>c. c \<noteq> LF) ident) path (REMclean l)"
  by (simp add: offer_answered_def Process_def Let_def)

lemma to_peer_answered:
  "offer_answered e w b ident path l w1 \<Longrightarrow>
     to_peer (trace w1) = to_peer (trace w) @ ''ihave '' @ takeWhile (\<lambda>c. c \<noteq> LF) ident @ [CR, LF]"
  by (auto simp: offer_answered_def to_peer_offer quiet_def dest!: quiet_fgets_server)

lemma command_step_article:
  "bytecount_article w s cmd got w0 s1 \<Longrightarrow> Process e w0 (add_newline got) = (ok, w1) \<Longrightarrow>
     command_step e st w s cmd =
       (if ok then Continue (st\<lparr>fd := s1, HadCount := True, wld := w1\<rparr>)
        else Return (Ret False) (Some s1) (countp st) w1)"
  by (auto simp: bytecount_article_def command_step_def ReadBytecount_def Let_def)


definition batch1 :: string where
  "batch1 = ''#! rnews 71'' @ [LF] @ art_ok"

definition st_ex :: "string \<Rightarrow> string \<Rightarrow> ustate" where
  "st_ex b replies =
     \<lparr>fd = file_ex b, countp = 0, gzip = False, HadCount = False, SawCunbatch = False,
      wld = world_ex replies\<rparr>"



subsection \<open>Files written by a run\<close>












text \<open>
  C8.  When the reply to \<^verbatim>\<open>ihave\<close> is already-have, \<^verbatim>\<open>Process\<close> returns TRUE after
  logging the duplicate as the build asks: the offer line is all that ever went to the
  server, and a byte-counted batch goes on with its next iteration.
\<close>

theorem duplicate_reply_sends_no_body:
  assumes ans: "offer_answered e w0 b ident path l w1"
    and h: "atoi (REMclean l) = NNTP_HAVEIT_VAL e"
    and d1: "NNTP_HAVEIT_VAL e \<noteq> NNTP_RESENDIT_VAL e"
    and d2: "NNTP_HAVEIT_VAL e \<noteq> NNTP_SENDIT_VAL e"
  shows "Process e w0 b = (True, log_dup e w1 (takeWhile (\<lambda>c. c \<noteq> LF) ident) path) \<and>
         to_peer (trace (log_dup e w1 (takeWhile (\<lambda>c. c \<noteq> LF) ident) path)) =
           to_peer (trace w0) @ ''ihave '' @ takeWhile (\<lambda>c. c \<noteq> LF) ident @ [CR, LF] \<and>
         (\<forall>st w s cmd got s1.
            bytecount_article w s cmd got w0 s1 \<and> b = add_newline got \<longrightarrow>
            command_step e st w s cmd =
              Continue (st\<lparr>fd := s1, HadCount := True,
                 wld := log_dup e w1 (takeWhile (\<lambda>c. c \<noteq> LF) ident) path\<rparr>))"
proof -
  let ?W = "log_dup e w1 (takeWhile (\<lambda>c. c \<noteq> LF) ident) path"
  have p: "Process e w0 b = (True, ?W)"
    using h d1 d2 by (simp add: Process_answered [OF ans] ihave_reply_def)
  have q: "to_peer (trace ?W) =
      to_peer (trace w0) @ ''ihave '' @ takeWhile (\<lambda>c. c \<noteq> LF) ident @ [CR, LF]"
    using quiet_log_dup [of w1 e] to_peer_answered [OF ans] by (simp add: quiet_def)
  have r: "command_step e st w s cmd = Continue (st\<lparr>fd := s1, HadCount := True, wld := ?W\<rparr>)"
    if "bytecount_article w s cmd got w0 s1" "b = add_newline got" for st w s cmd got s1
    using command_step_article [OF that(1), of e True ?W st] p that(2) by simp
  from p q r show ?thesis by blast
qed

theorem duplicate_reply_sends_no_body_witness:
  "Process env_ex (world_ex (''435 Duplicate'' @ [CR, LF])) art_ok =
     (True,
      \<lparr>trace = [ToPeer (''ihave <1@x>'' @ [CR, LF]), FromPeer (''435 Duplicate'' @ [CR, LF])],
       fromServer = [], sys = [], kids = [], names = [], waits = [], UUCPHost = None\<rparr>) \<and>
   command_step env_ex (st_ex batch1 (''435 Duplicate'' @ [CR, LF]))
       (world_ex (''435 Duplicate'' @ [CR, LF])) (advance (file_ex batch1) 12) ''#! rnews 71'' =
     Continue ((st_ex batch1 (''435 Duplicate'' @ [CR, LF]))
       \<lparr>fd := advance (file_ex batch1) 83, HadCount := True,
        wld := \<lparr>trace = [ToPeer (''ihave <1@x>'' @ [CR, LF]),
                         FromPeer (''435 Duplicate'' @ [CR, LF])],
       fromServer = [], sys = [], kids = [], names = [], waits = [], UUCPHost = None\<rparr>\<rparr>)"
proof -
  let ?r = "''435 Duplicate'' @ [CR, LF]"
  let ?w1 = "snd (fgets_server env_ex (offer (world_ex ?r) ''<1@x>''))"
  have ans: "offer_answered env_ex (world_ex ?r) art_ok (drop 12 art_ok) ''p'' ?r ?w1"
    by code_simp
  have u: "atoi (REMclean ?r) = NNTP_HAVEIT_VAL env_ex"
    "NNTP_HAVEIT_VAL env_ex \<noteq> NNTP_RESENDIT_VAL env_ex"
    "NNTP_HAVEIT_VAL env_ex \<noteq> NNTP_SENDIT_VAL env_ex"
    by code_simp+
  note t = duplicate_reply_sends_no_body [OF ans u]
  have b: "bytecount_article (world_ex ?r) (advance (file_ex batch1) 12) ''#! rnews 71'' art_ok
      (world_ex ?r) (advance (file_ex batch1) 83) \<and> art_ok = add_newline art_ok"
    by code_simp
  have w: "log_dup env_ex ?w1 (takeWhile (\<lambda>c. c \<noteq> LF) (drop 12 art_ok)) ''p'' =
      \<lparr>trace = [ToPeer (''ihave <1@x>'' @ [CR, LF]), FromPeer (''435 Duplicate'' @ [CR, LF])],
       fromServer = [], sys = [], kids = [], names = [], waits = [], UUCPHost = None\<rparr>"
    by code_simp
  from t [THEN conjunct1] t [THEN conjunct2, THEN conjunct2, rule_format, OF b]
  show ?thesis unfolding w by simp
qed





subsection \<open>The read loop of ReadBytecount\<close>

lemma read_loop_True:
  "read_loop w s left acc = (True, got, w1, s1) \<Longrightarrow>
     got = acc @ take left (rest s) \<and> left \<le> length (rest s) \<and> pos s1 = pos s + left"
proof (induction w s left acc rule: read_loop.induct)
  case (1 w s left acc)
  note eq = read_loop.simps [of w s left acc]
  show ?case
  proof (cases "left = 0")
    case True
    with "1.prems" eq show ?thesis by simp
  next
    case False
    obtain r w' s' where rd: "read w s left = (r, w', s')" by (cases "read w s left") auto
    show ?thesis
    proof (cases r)
      case RErr
      with False rd "1.prems" eq show ?thesis by simp
    next
      case (RData d)
      show ?thesis
      proof (cases "d = []")
        case True
        with False rd RData "1.prems" eq show ?thesis by simp
      next
        case dne: False
        from False rd RData dne "1.prems" eq
        have rl: "read_loop w' s' (left - length d) (acc @ d) = (True, got, w1, s1)" by simp
        from "1.IH" [OF False rd [symmetric] _ _ dne rl] RData
        have ih: "got = (acc @ d) @ take (left - length d) (rest s')"
          "left - length d \<le> length (rest s')" "pos s1 = pos s' + (left - length d)" by simp_all
        note rdd = read_data [OF rd [unfolded RData]]
        from rdd(5) have "take left (rest s) = d @ take (left - length d) (rest s')"
          using rdd(1) by simp
        with ih rdd show ?thesis by auto
      qed
    qed
  qed
qed

lemma read_loop_trace: "read_loop w s left acc = (ok, got, w1, s1) \<Longrightarrow> trace w1 = trace w"
proof (induction w s left acc rule: read_loop.induct)
  case (1 w s left acc)
  note eq = read_loop.simps [of w s left acc]
  show ?case
  proof (cases "left = 0")
    case True
    with "1.prems" eq show ?thesis by simp
  next
    case False
    obtain r w' s' where rd: "read w s left = (r, w', s')" by (cases "read w s left") auto
    note tr = read_trace [OF rd]
    show ?thesis
    proof (cases r)
      case RErr
      with False rd "1.prems" eq tr show ?thesis by simp
    next
      case (RData d)
      show ?thesis
      proof (cases "d = []")
        case True
        with False rd RData "1.prems" eq tr show ?thesis by simp
      next
        case dne: False
        from False rd RData dne "1.prems" eq
        have rl: "read_loop w' s' (left - length d) (acc @ d) = (ok, got, w1, s1)" by simp
        from "1.IH" [OF False rd [symmetric] _ _ dne rl] RData tr show ?thesis by simp
      qed
    qed
  qed
qed

lemma syscall_no_Fail:
  "Fail \<notin> set (sys w) \<Longrightarrow> syscall w = (r, w1) \<Longrightarrow> r \<noteq> Fail \<and> Fail \<notin> set (sys w1)"
  by (cases "sys w") (auto simp: syscall_def)

lemma read_no_Fail:
  assumes "Fail \<notin> set (sys w)" "read w s n = (r, w1, s1)" "0 < n" "rest s \<noteq> []"
  shows "\<exists>d. r = RData d \<and> d \<noteq> [] \<and> Fail \<notin> set (sys w1)"
proof -
  obtain q w' where sc: "syscall w = (q, w')" by (cases "syscall w")
  from syscall_no_Fail [OF assms(1) sc] have q: "q \<noteq> Fail" and f: "Fail \<notin> set (sys w')"
    by simp_all
  from assms(4) obtain c cs where cs: "rest s = c # cs" by (cases "rest s") auto
  from assms(3) obtain m where m: "n = Suc m" by (cases n) auto
  show ?thesis
  proof (cases q)
    case OK
    with assms(2) sc f cs m show ?thesis by (auto simp: read_def Let_def)
  next
    case (Short k)
    have "min n (max 1 k) = Suc (min m (max 1 k - 1))" using m by (cases k) auto
    with Short assms(2) sc f cs show ?thesis by (auto simp: read_def Let_def)
  next
    case Fail
    with q show ?thesis by simp
  qed
qed

text \<open>When the bytes are there and no system call fails, the loop gets them all.\<close>

lemma read_loop_succeeds:
  "Fail \<notin> set (sys w) \<Longrightarrow> left \<le> length (rest s) \<Longrightarrow> fst (read_loop w s left acc) = True"
proof (induction w s left acc rule: read_loop.induct)
  case (1 w s left acc)
  note eq = read_loop.simps [of w s left acc]
  show ?case
  proof (cases "left = 0")
    case True
    with eq show ?thesis by simp
  next
    case False
    obtain r w' s' where rd: "read w s left = (r, w', s')" by (cases "read w s left") auto
    from False "1.prems"(2) have ne: "rest s \<noteq> []" by auto
    from read_no_Fail [OF "1.prems"(1) rd _ ne] False obtain d where
      d: "r = RData d" "d \<noteq> []" and f: "Fail \<notin> set (sys w')" by auto
    note rdd = read_data [OF rd [unfolded d(1)]]
    from rdd(2) "1.prems"(2) have le: "left - length d \<le> length (rest s')" by simp
    from "1.IH" [OF False rd [symmetric] _ _ d(2) f le] d
    have "fst (read_loop w' s' (left - length d) (acc @ d)) = True" by simp
    with False rd d eq show ?thesis by simp
  qed
qed

text \<open>
  C7.  When every \<^verbatim>\<open>read\<close> of a byte-counted article of declared size \<open>N\<close> succeeds,
  that is, when the loop of \<^verbatim>\<open>ReadBytecount\<close> runs to its end, the loop has taken exactly
  the next \<open>N\<close> bytes of the stream, in order, the descriptor stands \<open>N\<close> bytes further,
  and \<^verbatim>\<open>Process\<close> receives these bytes followed by one newline when the \<open>N\<close>th byte is
  not a newline, and unchanged when it is.
\<close>

theorem bytecount_reads_exactly_N:
  assumes pos: "0 < N"
    and ok: "read_loop w s N [] = (True, got, w1, s1)"
  shows "got = take N (rest s) \<and> length got = N \<and> pos s1 = pos s + N \<and>
         trace w1 = trace w \<and>
         add_newline got = got @ (if got ! (N - 1) = LF then [] else [LF]) \<and>
         ReadBytecount e w s N =
           (case Process e w1 (got @ (if got ! (N - 1) = LF then [] else [LF])) of
              (r, w2) \<Rightarrow> (r, w2, s1))"
proof -
  from read_loop_True [OF ok] have g: "got = take N (rest s)" and le: "N \<le> length (rest s)"
    and p: "pos s1 = pos s + N" by simp_all
  from g le have len: "length got = N" by simp
  with pos have ne: "got \<noteq> []" by auto
  from ne len have l: "last got = got ! (N - 1)" by (simp add: last_conv_nth)
  have a: "add_newline got = got @ (if got ! (N - 1) = LF then [] else [LF])"
    using ne l by (simp add: add_newline_def)
  have rb: "ReadBytecount e w s N =
      (case Process e w1 (got @ (if got ! (N - 1) = LF then [] else [LF])) of
         (r, w2) \<Rightarrow> (r, w2, s1))"
    using ok a by (simp add: ReadBytecount_def)
  from g len p read_loop_trace [OF ok] a rb show ?thesis by simp
qed


theorem bytecount_reads_exactly_N_witness:
  "read_loop ((world_ex [])\<lparr>sys := [Short 30]\<rparr>) (advance (file_ex batch1) 12) 70 [] =
     (True, take 70 art_ok, world_ex [], advance (file_ex batch1) 82) \<and>
   add_newline (take 70 art_ok) = art_ok \<and>
   ReadBytecount env_ex ((world_ex [])\<lparr>sys := [Short 30]\<rparr>) (advance (file_ex batch1) 12) 70 =
     (case Process env_ex (world_ex []) art_ok of
        (r, w2) \<Rightarrow> (r, w2, advance (file_ex batch1) 82))"
proof -
  have ok: "read_loop ((world_ex [])\<lparr>sys := [Short 30]\<rparr>) (advance (file_ex batch1) 12) 70 [] =
      (True, take 70 art_ok, world_ex [], advance (file_ex batch1) 82)"
    by code_simp
  have n: "take 70 art_ok @ (if take 70 art_ok ! (70 - 1) = LF then [] else [LF]) = art_ok"
    by code_simp
  have p: "(0::nat) < 70" by simp
  note t = bytecount_reads_exactly_N [OF p ok, of env_ex]
  note t5 = t [THEN conjunct2, THEN conjunct2, THEN conjunct2, THEN conjunct2]
  have a: "add_newline (take 70 art_ok) = art_ok"
    using t5 [THEN conjunct1] unfolding n .
  have rb: "ReadBytecount env_ex ((world_ex [])\<lparr>sys := [Short 30]\<rparr>)
      (advance (file_ex batch1) 12) 70 =
      (case Process env_ex (world_ex []) art_ok of
         (r, w2) \<Rightarrow> (r, w2, advance (file_ex batch1) 82))"
    using t5 [THEN conjunct2] unfolding n .
  from ok a rb show ?thesis by (intro conjI)
qed





end
